theory Spec2Isabelle
  imports Main "HOL-Library.Word"
begin

section \<open>The execution gateway of sirrah-rpc (httpserver/handler.go)\<close>

text \<open>
  The file under study is one Go source file: a service that owns an external engine
  process (\<open>RevmService\<close>), a one-slot admission gate built from a buffered channel
  (\<open>ExecuteLocked\<close>), one protocol turn on the engine's pipes (\<open>ExecuteTx\<close>), and the
  JSON-RPC handler that drives them (\<open>handleAPI\<close>).

  Go code is modelled by explicit state passing. A call ends in one of three ways: it
  returns a value, it panics with a value, or it never returns because it waits on a
  channel or a pipe that nothing will ever serve.
\<close>

subsection \<open>Values, errors and the ways a call can end\<close>

type_synonym byte = "8 word"

text \<open>A Go \<open>error\<close> value, identified by the text its \<open>Error()\<close> method returns.\<close>

datatype go_error = Error string

fun Error_text :: "go_error \<Rightarrow> string" where
  "Error_text (Error m) = m"

text \<open>
  What a panic carries: the error passed to \<open>panic(err)\<close>, or one of the run-time
  errors of indexing and slicing.
\<close>

datatype panic_value =
    PanicError go_error
  | IndexOutOfRange int
  | SliceBoundsOutOfRange int

datatype 'a outcome = Returned 'a | Panicked panic_value | Blocked

subsection \<open>The engine process: \<open>exec.Cmd\<close>\<close>

text \<open>
  \<open>os/exec\<close> belongs to the Go standard library, not to this repository. The record
  keeps the four fields of \<open>exec.Cmd\<close> that its pipe methods inspect, and the three
  pipe methods and \<open>Start\<close> follow the library's documented guards: a pipe can be asked
  for only while the matching field is still nil and the process has not been started.
  Whether the operating system launches the binary is an input (\<open>launch\<close>).
\<close>

datatype io_target = Buffer | PipeEnd

record Cmd =
  Stdin :: "io_target option"
  Stdout :: "io_target option"
  Stderr :: "io_target option"
  Process :: bool

definition exec_Command :: Cmd where
  "exec_Command = \<lparr>Stdin = None, Stdout = None, Stderr = None, Process = False\<rparr>"

definition Start :: "go_error option \<Rightarrow> Cmd \<Rightarrow> go_error option \<times> Cmd" where
  "Start launch c =
     (if Process c then (Some (Error ''exec: already started''), c)
      else case launch of
             Some err \<Rightarrow> (Some err, c)
           | None \<Rightarrow> (None, c\<lparr>Process := True\<rparr>))"

definition StdinPipe :: "Cmd \<Rightarrow> go_error option \<times> Cmd" where
  "StdinPipe c =
     (if Stdin c \<noteq> None then (Some (Error ''exec: Stdin already set''), c)
      else if Process c then (Some (Error ''exec: StdinPipe after process started''), c)
      else (None, c\<lparr>Stdin := Some PipeEnd\<rparr>))"

definition StdoutPipe :: "Cmd \<Rightarrow> go_error option \<times> Cmd" where
  "StdoutPipe c =
     (if Stdout c \<noteq> None then (Some (Error ''exec: Stdout already set''), c)
      else if Process c then (Some (Error ''exec: StdoutPipe after process started''), c)
      else (None, c\<lparr>Stdout := Some PipeEnd\<rparr>))"

definition StderrPipe :: "Cmd \<Rightarrow> go_error option \<times> Cmd" where
  "StderrPipe c =
     (if Stderr c \<noteq> None then (Some (Error ''exec: Stderr already set''), c)
      else if Process c then (Some (Error ''exec: StderrPipe after process started''), c)
      else (None, c\<lparr>Stderr := Some PipeEnd\<rparr>))"

subsection \<open>The engine's side of the pipes\<close>

text \<open>
  The engine is a black box. What it does to one caller is a script: the result of each
  successive \<open>Write\<close> on the input pipe, and the result \<open>(buf[:n], err)\<close> of each
  successive \<open>Read\<close> on the two output pipes. A script that has run out means that the
  call waits for ever. Everything observable that the service does is appended to
  \<open>events\<close>.
\<close>

datatype pipe = inPipe | outPipe | errPipe

type_synonym read_result = "byte list \<times> go_error option"

datatype event =
    EvWrite "byte list"
  | EvRead pipe nat
  | EvSleep
  | EvLogError string go_error
  | EvLogInfo string go_error

record world =
  sgxRevmCmd :: Cmd
  stdin_writes :: "go_error option list"
  stdout_reads :: "read_result list"
  stderr_reads :: "read_result list"
  events :: "event list"

subsection \<open>One frame out, one frame in (ExecuteTx, lines 76 to 115)\<close>

definition delimiter :: byte where
  "delimiter = 10"

text \<open>Line 76: \<open>txBytes = append(txBytes, []byte{'\n'}...)\<close>.\<close>

definition append_delimiter :: "byte list \<Rightarrow> byte list" where
  "append_delimiter txBytes = txBytes @ [delimiter]"

text \<open>Line 77: \<open>_, err = inPipe.Write(txBytes)\<close>, one single write.\<close>

definition pipe_Write :: "byte list \<Rightarrow> world \<Rightarrow> go_error option outcome \<times> world" where
  "pipe_Write txBytes w =
     (case stdin_writes w of
        [] \<Rightarrow> (Blocked, w)
      | r # rest \<Rightarrow>
          (Returned r, w\<lparr>stdin_writes := rest, events := events w @ [EvWrite txBytes]\<rparr>))"

text \<open>
  Lines 83 to 98, and again lines 101 to 115 for the other pipe. Each turn of the loop
  takes a fresh zeroed \<open>buf\<close> of 1024 bytes and one \<open>Read\<close> result. \<open>buf[nRead-1]\<close> is
  an index into a Go array: outside \<open>0..1023\<close> it panics.
\<close>

fun read_loop ::
  "pipe \<Rightarrow> read_result list \<Rightarrow> byte list \<Rightarrow> event list
     \<Rightarrow> byte list outcome \<times> read_result list \<times> event list" where
  "read_loop p [] outData evs = (Blocked, [], evs)"
| "read_loop p ((bytes, err) # rest) outData evs =
     (let nRead = int (length bytes);
          buf = bytes @ replicate (1024 - length bytes) (0::byte);
          evs1 = evs @ [EvRead p (length bytes)]
      in case err of
           Some e \<Rightarrow>
             (Panicked (PanicError e), rest,
              evs1 @ [EvLogError ''revm service stdout corrupted, cannot recover'' e])
         | None \<Rightarrow>
             (let evs2 = (if nRead = 0 then evs1 @ [EvSleep] else evs1)
              in if 1024 < nRead then (Panicked (SliceBoundsOutOfRange nRead), rest, evs2)
                 else
                   (let outData' = outData @ take (nat nRead) buf
                    in if nRead - 1 < 0 \<or> 1024 \<le> nRead - 1
                       then (Panicked (IndexOutOfRange (nRead - 1)), rest, evs2)
                       else if buf ! nat (nRead - 1) = delimiter
                       then (Returned outData', rest, evs2)
                       else read_loop p rest outData' evs2)))"

definition pipe_reads :: "pipe \<Rightarrow> world \<Rightarrow> read_result list" where
  "pipe_reads p w = (case p of outPipe \<Rightarrow> stdout_reads w | errPipe \<Rightarrow> stderr_reads w | inPipe \<Rightarrow> [])"

definition set_pipe_reads :: "pipe \<Rightarrow> read_result list \<Rightarrow> world \<Rightarrow> world" where
  "set_pipe_reads p rs w =
     (case p of outPipe \<Rightarrow> w\<lparr>stdout_reads := rs\<rparr>
              | errPipe \<Rightarrow> w\<lparr>stderr_reads := rs\<rparr>
              | inPipe \<Rightarrow> w)"

definition read_frame :: "pipe \<Rightarrow> world \<Rightarrow> byte list outcome \<times> world" where
  "read_frame p w =
     (case read_loop p (pipe_reads p w) [] (events w) of
        (r, rest, evs) \<Rightarrow> (r, set_pipe_reads p rest (w\<lparr>events := evs\<rparr>)))"

subsection \<open>ExecuteTx (lines 55 to 118)\<close>

text \<open>
  \<open>types.Transaction\<close> and its \<open>MarshalBinary\<close> come from go-ethereum; the encoder is a
  parameter. The result triple is \<open>(outData, outErr, err)\<close>, with nil slices as \<open>[]\<close>.
\<close>

type_synonym tx_result = "byte list \<times> byte list \<times> go_error option"

definition ExecuteTx ::
  "('tx \<Rightarrow> go_error + byte list) \<Rightarrow> 'tx \<Rightarrow> world \<Rightarrow> tx_result outcome \<times> world" where
  "ExecuteTx MarshalBinary tx w =
     (case StdinPipe (sgxRevmCmd w) of
        (Some err, c1) \<Rightarrow> (Returned ([], [], Some err), w\<lparr>sgxRevmCmd := c1\<rparr>)
      | (None, c1) \<Rightarrow>
     (case StdoutPipe c1 of
        (Some err, c2) \<Rightarrow> (Returned ([], [], Some err), w\<lparr>sgxRevmCmd := c2\<rparr>)
      | (None, c2) \<Rightarrow>
     (case StderrPipe c2 of
        (Some err, c3) \<Rightarrow> (Returned ([], [], Some err), w\<lparr>sgxRevmCmd := c3\<rparr>)
      | (None, c3) \<Rightarrow>
     (case MarshalBinary tx of
        Inl err \<Rightarrow> (Returned ([], [], Some err), w\<lparr>sgxRevmCmd := c3\<rparr>)
      | Inr txBytes \<Rightarrow>
     (case pipe_Write (append_delimiter txBytes) (w\<lparr>sgxRevmCmd := c3\<rparr>) of
        (Blocked, w1) \<Rightarrow> (Blocked, w1)
      | (Panicked pv, w1) \<Rightarrow> (Panicked pv, w1)
      | (Returned (Some err), w1) \<Rightarrow> (Returned ([], [], Some err), w1)
      | (Returned None, w1) \<Rightarrow>
     (case read_frame outPipe w1 of
        (Blocked, w2) \<Rightarrow> (Blocked, w2)
      | (Panicked pv, w2) \<Rightarrow> (Panicked pv, w2)
      | (Returned outData, w2) \<Rightarrow>
     (case read_frame errPipe w2 of
        (Blocked, w3) \<Rightarrow> (Blocked, w3)
      | (Panicked pv, w3) \<Rightarrow> (Panicked pv, w3)
      | (Returned outErr, w3) \<Rightarrow> (Returned (outData, outErr, None), w3))))))))"

subsection \<open>NewRevmService (lines 26 to 35)\<close>

text \<open>
  The two stateful fields of the \<open>RevmService\<close> struct are the command and the channel
  \<open>cmdLock\<close>, made with capacity 1. A buffered channel of empty structs is known by the
  number of elements it holds.
\<close>

record RevmService =
  svc_sgxRevmCmd :: Cmd
  svc_cmdLock :: nat

definition cmdLock_cap :: nat where
  "cmdLock_cap = 1"

definition NewRevmService :: "go_error option \<Rightarrow> go_error + RevmService" where
  "NewRevmService launch =
     (let cmd = exec_Command;
          cmd = cmd\<lparr>Stdout := Some Buffer\<rparr>;
          cmd = cmd\<lparr>Stderr := Some Buffer\<rparr>
      in case Start launch cmd of
           (Some err, cmd') \<Rightarrow> Inl err
         | (None, cmd') \<Rightarrow> Inr \<lparr>svc_sgxRevmCmd = cmd', svc_cmdLock = 0\<rparr>)"

subsection \<open>The admission gate: ExecuteLocked (lines 37 to 53)\<close>

text \<open>
  The gate's state is the channel and what the gate reports: taking the slot, giving it
  back, and the metrics it records. The callback works on a state of its own, of any
  type; the gate does not look into it.

  The \<open>select\<close> has two cases. The send is ready when the channel has room, the receive
  from \<open>ctx.Done()\<close> when the context is done (\<open>ctx = Some err\<close>, with \<open>err\<close> what
  \<open>ctx.Err()\<close> returns). When both are ready Go picks one at random: \<open>pick_send\<close>
  is that pick. When neither is ready, and no other goroutine runs, the call waits for
  ever.
\<close>

datatype gate_event = Lock | Unlock | Metric string

record gate =
  cmdLock :: nat
  gate_events :: "gate_event list"

definition ExecuteLocked ::
  "go_error option \<Rightarrow> bool \<Rightarrow> ('s \<Rightarrow> unit outcome \<times> 's) \<Rightarrow> gate \<times> 's
     \<Rightarrow> go_error option outcome \<times> gate \<times> 's" where
  "ExecuteLocked ctx pick_send cb gs =
     (case gs of (g, s) \<Rightarrow>
        if cmdLock g < cmdLock_cap \<and> (ctx = None \<or> pick_send) then
          (let g1 = g\<lparr>cmdLock := cmdLock g + 1,
                      gate_events := gate_events g @ [Lock, Metric ''revm_lock_wait'']\<rparr>
           in case cb s of
                (Blocked, s') \<Rightarrow> (Blocked, g1, s')
              | (Panicked pv, s') \<Rightarrow> (Panicked pv, g1, s')
              | (Returned u, s') \<Rightarrow>
                  if cmdLock g1 = 0 then (Blocked, g1, s')
                  else (Returned None,
                        g1\<lparr>cmdLock := cmdLock g1 - 1,
                           gate_events := gate_events g1 @ [Unlock]\<rparr>, s'))
        else if ctx \<noteq> None then
          (Returned ctx, g\<lparr>gate_events := gate_events g @ [Metric ''revm_lock_timeout'']\<rparr>, s)
        else (Blocked, g, s))"

subsection \<open>JSON values and struct tags\<close>

text \<open>
  A decoded JSON value. \<open>JBytes\<close> stands for a Go \<open>[]byte\<close>, which \<open>encoding/json\<close>
  writes as a base64 string.
\<close>

datatype json =
    JNull
  | JBool bool
  | JNumber int
  | JString string
  | JBytes "byte list"
  | JArray "json list"
  | JObject "(string \<times> json) list"

text \<open>
  The key under which \<open>encoding/json\<close> writes a struct field comes from the field's tag.
  \<open>reflect.StructTag.Lookup\<close> and \<open>encoding/json\<close> belong to the Go standard library;
  the functions below follow the library's algorithm on tags written in ASCII: a tag is
  a sequence of \<open>key:"value"\<close> pairs separated by spaces, anything else ends the scan, and
  a field whose tag gives no valid name is written under its Go name. Escapes inside a
  value are not interpreted (no tag of this file has one).
\<close>

definition tag_name_char :: "char \<Rightarrow> bool" where
  "tag_name_char c =
     ((32::nat) < of_char c \<and> c \<noteq> CHR '':'' \<and> c \<noteq> CHR 0x22 \<and> c \<noteq> CHR 0x7F)"

fun scan_quoted :: "string \<Rightarrow> (string \<times> string) option" where
  "scan_quoted [] = None"
| "scan_quoted (c # cs) =
     (if c = CHR 0x22 then Some ([], cs)
      else if c = CHR 0x5C then
        (case cs of
           [] \<Rightarrow> None
         | d # ds \<Rightarrow> map_option (\<lambda>(body, rest). (c # d # body, rest)) (scan_quoted ds))
      else map_option (\<lambda>(body, rest). (c # body, rest)) (scan_quoted cs))"

definition Unquote :: "string \<Rightarrow> string option" where
  "Unquote body = (if CHR 0x5C \<in> set body \<or> CHR 0x0A \<in> set body then None else Some body)"

function Lookup :: "string \<Rightarrow> string \<Rightarrow> string option" where
  "Lookup tag key =
     (let tag1 = dropWhile (\<lambda>c. c = CHR '' '') tag
      in if tag1 = [] then None
         else
           (let name = takeWhile tag_name_char tag1;
                i = length name
            in if i = 0 \<or> length tag1 \<le> i + 1 \<or> tag1 ! i \<noteq> CHR '':''
                  \<or> tag1 ! (i + 1) \<noteq> CHR 0x22
               then None
               else
                 (case scan_quoted (drop (i + 2) tag1) of
                    None \<Rightarrow> None
                  | Some (body, rest) \<Rightarrow>
                      if key = name then Unquote body else Lookup rest key)))"
  by pat_completeness auto
termination
proof (relation "measure (\<lambda>(tag, key). length tag)")
  show "wf (measure (\<lambda>(tag, key). length tag))" by simp
next
  fix tag key :: string and tag1 name i x2 body rest
  assume t1: "tag1 = dropWhile (\<lambda>c. c = CHR '' '') tag"
    and i: "i = length name"
    and sq: "scan_quoted (drop (i + 2) tag1) = Some x2" "(body, rest) = x2"
  have shorter: "scan_quoted xs = Some (b, r) \<Longrightarrow> length r < length xs" for xs b r
  proof (induction xs arbitrary: b r rule: scan_quoted.induct)
    case 1
    then show ?case by simp
  next
    case (2 c cs)
    then show ?case by (fastforce split: if_splits list.splits)
  qed
  have "length rest < length (drop (i + 2) tag1)"
    using shorter [of "drop (i + 2) tag1" body rest] sq by simp
  also have "\<dots> \<le> length tag1" by simp
  also have "\<dots> \<le> length tag" using t1 by (simp add: length_dropWhile_le)
  finally show "((rest, key), (tag, key)) \<in> measure (\<lambda>(tag, key). length tag)" by simp
qed

definition isValidTag :: "string \<Rightarrow> bool" where
  "isValidTag s =
     (s \<noteq> [] \<and>
      (\<forall>c \<in> set s.
         c \<in> set ''!#$%&()*+-./:;<=>?@[]^_{|}~ ''
         \<or> (let n = (of_char c :: nat)
            in (48 \<le> n \<and> n \<le> 57) \<or> (65 \<le> n \<and> n \<le> 90) \<or> (97 \<le> n \<and> n \<le> 122))))"

text \<open>\<open>None\<close>: the field is left out (tag \<open>-\<close>); otherwise the key it is written under.\<close>

definition json_field_key :: "string \<Rightarrow> string \<Rightarrow> string option" where
  "json_field_key fieldName tag =
     (let t = (case Lookup tag ''json'' of None \<Rightarrow> [] | Some v \<Rightarrow> v)
      in if t = ''-'' then None
         else
           (let name = takeWhile (\<lambda>c. c \<noteq> CHR '','') t
            in Some (if isValidTag name then name else fieldName)))"

definition encode_struct :: "(string \<times> string \<times> json) list \<Rightarrow> json" where
  "encode_struct fs =
     JObject (List.map_filter
                (\<lambda>(fieldName, tag, v). map_option (\<lambda>k. (k, v)) (json_field_key fieldName tag))
                fs)"

subsection \<open>The JSON-RPC structs (lines 120 to 158)\<close>

text \<open>
  \<open>Params\<close> is a \<open>json.RawMessage\<close>, kept as text; \<open>Id\<close> is an \<open>interface{}\<close>, kept as
  the decoded JSON value. The tags are the ones written in the source, character for
  character.
\<close>

record JsonRpcRequest =
  Jsonrpc :: string
  Method :: string
  Params :: string
  ReqId :: json

record JsonRpcError =
  Code :: int
  Message :: string

record JsonRpcErrorResponse =
  err_Jsonrpc :: string
  err_Error :: JsonRpcError
  err_Id :: json

record JsonRpcSuccessResponse =
  ok_Jsonrpc :: string
  ok_Result :: "byte list"
  ok_Id :: json

definition tag_jsonrpc :: string where
  \<open>tag_jsonrpc = ''json:"jsonrpc"''\<close>

definition tag_id :: string where
  \<open>tag_id = ''json:"id"''\<close>

definition tag_error :: string where
  \<open>tag_error = ''json:"error"''\<close>

definition tag_result :: string where
  \<open>tag_result = ''json:"result"''\<close>

definition tag_Code :: string where
  \<open>tag_Code = ''json:"code"''\<close>

definition tag_Message :: string where
  \<open>tag_Message = ''json:message""''\<close>

definition NewJsonRpcErrorResponse :: "JsonRpcRequest \<Rightarrow> int \<Rightarrow> string \<Rightarrow> JsonRpcErrorResponse" where
  "NewJsonRpcErrorResponse r code msg =
     \<lparr>err_Jsonrpc = Jsonrpc r, err_Error = \<lparr>Code = code, Message = msg\<rparr>, err_Id = ReqId r\<rparr>"

definition NewJsonRpcSuccessResponse :: "JsonRpcRequest \<Rightarrow> byte list \<Rightarrow> JsonRpcSuccessResponse" where
  "NewJsonRpcSuccessResponse r data =
     \<lparr>ok_Jsonrpc = Jsonrpc r, ok_Result = data, ok_Id = ReqId r\<rparr>"

definition encode_JsonRpcError :: "JsonRpcError \<Rightarrow> json" where
  "encode_JsonRpcError e =
     encode_struct [(''Code'', tag_Code, JNumber (Code e)),
                    (''Message'', tag_Message, JString (Message e))]"

definition encode_JsonRpcErrorResponse :: "JsonRpcErrorResponse \<Rightarrow> json" where
  "encode_JsonRpcErrorResponse x =
     encode_struct [(''Jsonrpc'', tag_jsonrpc, JString (err_Jsonrpc x)),
                    (''Error'', tag_error, encode_JsonRpcError (err_Error x)),
                    (''Id'', tag_id, err_Id x)]"

definition encode_JsonRpcSuccessResponse :: "JsonRpcSuccessResponse \<Rightarrow> json" where
  "encode_JsonRpcSuccessResponse x =
     encode_struct [(''Jsonrpc'', tag_jsonrpc, JString (ok_Jsonrpc x)),
                    (''Result'', tag_result, JBytes (ok_Result x)),
                    (''Id'', tag_id, ok_Id x)]"

subsection \<open>handleAPI (lines 170 to 234)\<close>

text \<open>
  The request is its body and its context. The three decoders the handler calls are
  library code (\<open>encoding/json\<close> on the envelope, go-ethereum on the transaction) and are
  parameters. What the handler writes to the \<open>http.ResponseWriter\<close> is a list of writes.
\<close>

record http_request =
  Body :: string
  Context :: "go_error option"

record 'tx codecs =
  Decode :: "string \<Rightarrow> go_error + JsonRpcRequest"
  UnmarshalTx :: "string \<Rightarrow> go_error + 'tx"
  MarshalBinary :: "'tx \<Rightarrow> go_error + byte list"

datatype http_write =
    WriteHeader nat
  | SetHeader string string
  | WriteBody string
  | EncodeJson json

text \<open>Line 160: \<open>parseJsonRpcRequest\<close>.\<close>

definition parseJsonRpcRequest :: "'tx codecs \<Rightarrow> http_request \<Rightarrow> go_error + JsonRpcRequest" where
  "parseJsonRpcRequest env r = Decode env (Body r)"

text \<open>
  The two channels of lines 209 and 210, local to one call of the handler. Only the
  handler's own goroutine ever touches them, so a send to a full channel and a receive
  from an empty one wait for ever.
\<close>

record chans =
  outCh :: "byte list list"
  errCh :: "go_error option list"

definition chan_send :: "nat \<Rightarrow> 'a list \<Rightarrow> 'a \<Rightarrow> 'a list option" where
  "chan_send cap q v = (if length q < cap then Some (q @ [v]) else None)"

definition chan_recv :: "'a list \<Rightarrow> ('a \<times> 'a list) option" where
  "chan_recv q = (case q of [] \<Rightarrow> None | v # q' \<Rightarrow> Some (v, q'))"

text \<open>The closure of lines 211 to 221.\<close>

definition callback ::
  "('tx \<Rightarrow> go_error + byte list) \<Rightarrow> 'tx \<Rightarrow> chans \<times> world \<Rightarrow> unit outcome \<times> chans \<times> world" where
  "callback marshal tx cw =
     (case cw of (ch, w) \<Rightarrow>
        case ExecuteTx marshal tx w of
          (Blocked, w') \<Rightarrow> (Blocked, ch, w')
        | (Panicked pv, w') \<Rightarrow> (Panicked pv, ch, w')
        | (Returned (stdout, stderr, Some err), w') \<Rightarrow>
            (case chan_send 1 (errCh ch) (Some err) of
               None \<Rightarrow> (Blocked, ch, w')
             | Some q \<Rightarrow> (Returned (), ch\<lparr>errCh := q\<rparr>, w'))
        | (Returned (stdout, stderr, None), w') \<Rightarrow>
            (case chan_send 2 (outCh ch) stdout of
               None \<Rightarrow> (Blocked, ch, w')
             | Some q1 \<Rightarrow>
            (case chan_send 2 q1 stderr of
               None \<Rightarrow> (Blocked, ch\<lparr>outCh := q1\<rparr>, w')
             | Some q2 \<Rightarrow>
            (case chan_send 1 (errCh ch) None of
               None \<Rightarrow> (Blocked, ch\<lparr>outCh := q2\<rparr>, w')
             | Some q3 \<Rightarrow> (Returned (), ch\<lparr>outCh := q2, errCh := q3\<rparr>, w')))))"

record handled =
  ending :: "unit outcome"
  response :: "http_write list"
  gate_after :: gate
  world_after :: world

definition error_reply :: "JsonRpcRequest \<Rightarrow> string \<Rightarrow> http_write" where
  "error_reply jr msg = EncodeJson (encode_JsonRpcErrorResponse (NewJsonRpcErrorResponse jr (- 32600) msg))"

definition handleAPI_body ::
  "'tx codecs \<Rightarrow> bool \<Rightarrow> http_request \<Rightarrow> gate \<times> world \<Rightarrow> handled" where
  "handleAPI_body env pick_send r gw =
     (case gw of (g, w) \<Rightarrow>
      case parseJsonRpcRequest env r of
        Inl err \<Rightarrow>
          \<lparr>ending = Returned (),
           response = [WriteHeader 400, WriteBody (''could not parse request: '' @ Error_text err)],
           gate_after = g, world_after = w\<rparr>
      | Inr jr \<Rightarrow>
          (let hdr = [SetHeader ''Content-Type'' ''application/json'']
           in if Method jr \<noteq> ''suave_offchainCall'' then
                \<lparr>ending = Returned (),
                 response = hdr @ [error_reply jr ''invalid method, expected suave_offchainCall''],
                 gate_after = g, world_after = w\<rparr>
              else
                (case UnmarshalTx env (Params jr) of
                   Inl err \<Rightarrow>
                     \<lparr>ending = Returned (),
                      response = hdr @ [error_reply jr
                                   (''could not unmarshal transaction: '' @ Error_text err)],
                      gate_after = g, world_after = w\<rparr>
                 | Inr tx \<Rightarrow>
                (case ExecuteLocked (Context r) pick_send (callback (MarshalBinary env) tx)
                        (g, (\<lparr>outCh = [], errCh = []\<rparr>, w)) of
                   (Blocked, g1, ch, w1) \<Rightarrow>
                     \<lparr>ending = Blocked, response = hdr, gate_after = g1, world_after = w1\<rparr>
                 | (Panicked pv, g1, ch, w1) \<Rightarrow>
                     \<lparr>ending = Panicked pv, response = hdr, gate_after = g1, world_after = w1\<rparr>
                 | (Returned ignored, g1, ch, w1) \<Rightarrow>
                (case chan_recv (errCh ch) of
                   None \<Rightarrow>
                     \<lparr>ending = Blocked, response = hdr, gate_after = g1, world_after = w1\<rparr>
                 | Some (Some err, q) \<Rightarrow>
                     \<lparr>ending = Returned (),
                      response = hdr @ [error_reply jr (''could not execute: '' @ Error_text err)],
                      gate_after = g1,
                      world_after = w1\<lparr>events := events w1 @
                                      [EvLogError ''could not execute offchain call'' err]\<rparr>\<rparr>
                 | Some (None, q) \<Rightarrow>
                (case chan_recv (outCh ch) of
                   None \<Rightarrow>
                     \<lparr>ending = Blocked, response = hdr, gate_after = g1, world_after = w1\<rparr>
                 | Some (stdout, q') \<Rightarrow>
                (let resp = hdr @ [EncodeJson (encode_JsonRpcSuccessResponse
                                                (NewJsonRpcSuccessResponse jr stdout))]
                 in case chan_recv q of
                      None \<Rightarrow>
                        \<lparr>ending = Blocked, response = resp, gate_after = g1, world_after = w1\<rparr>
                    | Some (None, q'') \<Rightarrow>
                        \<lparr>ending = Returned (), response = resp, gate_after = g1,
                         world_after = w1\<rparr>
                    | Some (Some errData, q'') \<Rightarrow>
                        \<lparr>ending = Returned (), response = resp, gate_after = g1,
                         world_after = w1\<lparr>events := events w1 @
                                         [EvLogInfo ''encountered execution error'' errData]\<rparr>\<rparr>)))))))"

text \<open>
  The deferred call of lines 179 to 181 records the request duration when the handler
  returns or panics; a handler that waits for ever never reaches it.
\<close>

definition handleAPI ::
  "'tx codecs \<Rightarrow> bool \<Rightarrow> http_request \<Rightarrow> gate \<times> world \<Rightarrow> handled" where
  "handleAPI env pick_send r gw =
     (let h = handleAPI_body env pick_send r gw
      in if ending h = Blocked then h
         else h\<lparr>gate_after := (gate_after h)\<lparr>gate_events :=
                  gate_events (gate_after h) @ [Metric ''request_duration_api'']\<rparr>\<rparr>)"

subsection \<open>Vocabulary for the properties\<close>

text \<open>The value stored under a key of a JSON object.\<close>

definition json_member :: "string \<Rightarrow> json \<Rightarrow> json option" where
  "json_member k j = (case j of JObject kvs \<Rightarrow> map_of kvs k | _ \<Rightarrow> None)"






text \<open>The same write with the \<open>jsonrpc\<close> member of a written object set to \<open>v\<close>.\<close>

fun with_jsonrpc :: "string \<Rightarrow> http_write \<Rightarrow> http_write" where
  "with_jsonrpc v (EncodeJson (JObject kvs)) =
     EncodeJson (JObject (map (\<lambda>(k, x). if k = ''jsonrpc'' then (k, JString v) else (k, x)) kvs))"
| "with_jsonrpc v wr = wr"

text \<open>What a write puts under a key, when it writes a JSON object.\<close>

definition written_member :: "string \<Rightarrow> http_write \<Rightarrow> json option" where
  "written_member k wr = (case wr of EncodeJson j \<Rightarrow> json_member k j | _ \<Rightarrow> None)"

definition is_envelope :: "http_write \<Rightarrow> bool" where
  "is_envelope wr = (case wr of EncodeJson j \<Rightarrow> True | _ \<Rightarrow> False)"

text \<open>
  A stub for the three decoders, used to run the handler on concrete requests: the body
  of the request is taken as the method name, and the transaction is its own encoding.
\<close>

definition stub_codecs :: "byte list codecs" where
  "stub_codecs =
     \<lparr>Decode = (\<lambda>body. if body = ''garbage'' then Inl (Error ''unexpected end of JSON input'')
                       else Inr \<lparr>Jsonrpc = ''2.0'', Method = body, Params = ''tx'',
                                ReqId = JNumber 1\<rparr>),
      UnmarshalTx = (\<lambda>params. Inr [1, 2, 3]),
      MarshalBinary = (\<lambda>tx. Inr tx)\<rparr>"

text \<open>
  A stub engine on a command whose pipes can still be obtained: it accepts one write and
  answers with the frame \<open>7, 10\<close> on its primary output and the frame \<open>10\<close> on its
  diagnostic output.
\<close>

definition stub_world :: world where
  "stub_world =
     \<lparr>sgxRevmCmd = exec_Command, stdin_writes = [None],
      stdout_reads = [([7, 10], None)], stderr_reads = [([10], None)], events = []\<rparr>"

definition free_gate :: gate where
  "free_gate = \<lparr>cmdLock = 0, gate_events = []\<rparr>"

definition held_gate :: gate where
  "held_gate = \<lparr>cmdLock = 1, gate_events = []\<rparr>"

subsection \<open>Several handlers at once\<close>

text \<open>
  Each request is served by a goroutine of its own, and all of them share the one
  channel \<open>cmdLock\<close> and the engine's pipes. The goroutines are numbered; each runs
  ExecuteLocked with the handler's callback, and what matters of it is where it stands:
  at the \<open>select\<close> of line 43, gone with \<open>ctx.Err()\<close> (line 51), inside the callback
  before the write (lines 46 and 56 to 77), in the first read loop (line 85), in the
  second (line 103), back from the callback before the receive of line 47, returned
  (line 48), or dead of a panic raised in the callback.

  One step of the system is one channel operation or one call on a pipe by one
  goroutine; Go makes each channel operation atomic. A schedule is the list of steps
  taken, in order, each with what the environment decided: whether a write succeeded,
  and whether a read brought data that left the frame open, data that closed it, or
  what makes the loop panic. A step that the goroutine cannot take where it stands
  (a send to the full channel among them) does not happen.
\<close>

datatype pc = AtSelect | GaveUp | Entered | InReadOut | InReadErr | AtUnlock | Finished | Dead

datatype read_end = More | Last | Broken

datatype action =
    Acquire nat
  | Expire nat
  | Refuse nat
  | Write nat bool
  | Read nat read_end
  | Release nat

record system =
  chan :: nat
  pcs :: "pc list"
  io_trace :: "(nat \<times> pipe) list"

definition stands :: "system \<Rightarrow> nat \<Rightarrow> pc \<Rightarrow> bool" where
  "stands s i p = (i < length (pcs s) \<and> pcs s ! i = p)"

definition move :: "nat \<Rightarrow> pc \<Rightarrow> system \<Rightarrow> system" where
  "move i p s = s\<lparr>pcs := (pcs s)[i := p]\<rparr>"

definition touch :: "nat \<Rightarrow> pipe \<Rightarrow> system \<Rightarrow> system" where
  "touch i p s = s\<lparr>io_trace := io_trace s @ [(i, p)]\<rparr>"

fun fire :: "action \<Rightarrow> system \<Rightarrow> system option" where
  "fire (Acquire i) s =
     (if stands s i AtSelect \<and> chan s < cmdLock_cap
      then Some (move i Entered (s\<lparr>chan := chan s + 1\<rparr>)) else None)"
| "fire (Expire i) s =
     (if stands s i AtSelect then Some (move i GaveUp s) else None)"
| "fire (Refuse i) s =
     (if stands s i Entered then Some (move i AtUnlock s) else None)"
| "fire (Write i ok) s =
     (if stands s i Entered
      then Some (move i (if ok then InReadOut else AtUnlock) (touch i inPipe s)) else None)"
| "fire (Read i r) s =
     (if stands s i InReadOut
      then Some (move i (case r of More \<Rightarrow> InReadOut | Last \<Rightarrow> InReadErr | Broken \<Rightarrow> Dead)
                  (touch i outPipe s))
      else if stands s i InReadErr
      then Some (move i (case r of More \<Rightarrow> InReadErr | Last \<Rightarrow> AtUnlock | Broken \<Rightarrow> Dead)
                  (touch i errPipe s))
      else None)"
| "fire (Release i) s =
     (if stands s i AtUnlock \<and> 0 < chan s
      then Some (move i Finished (s\<lparr>chan := chan s - 1\<rparr>)) else None)"

fun run :: "action list \<Rightarrow> system \<Rightarrow> system option" where
  "run [] s = Some s"
| "run (a # as) s = (case fire a s of None \<Rightarrow> None | Some s' \<Rightarrow> run as s')"

definition start :: "nat \<Rightarrow> system" where
  "start n = \<lparr>chan = 0, pcs = replicate n AtSelect, io_trace = []\<rparr>"

text \<open>
  A goroutine holds the ticket from its send on the channel to its receive; one that
  died in the callback holds it for good.
\<close>

fun holding :: "pc \<Rightarrow> bool" where
  "holding Entered = True"
| "holding InReadOut = True"
| "holding InReadErr = True"
| "holding AtUnlock = True"
| "holding Dead = True"
| "holding AtSelect = False"
| "holding GaveUp = False"
| "holding Finished = False"

definition holders :: "system \<Rightarrow> nat list" where
  "holders s = filter (\<lambda>i. holding (pcs s ! i)) [0..<length (pcs s)]"

text \<open>
  The calls on the pipes are serialized: at most one goroutine holds the ticket and the
  channel holds exactly the tickets held; in the order of the calls on the pipes, the
  calls of each goroutine stand together, unbroken by a call of another; and every
  goroutine that has called a pipe has either returned from ExecuteLocked, or holds the
  ticket and made the latest call.
\<close>

definition serialized :: "system \<Rightarrow> bool" where
  "serialized s =
     (length (holders s) \<le> 1
      \<and> chan s = length (holders s)
      \<and> distinct (remdups_adj (map fst (io_trace s)))
      \<and> list_all (\<lambda>i. i < length (pcs s)
                       \<and> (pcs s ! i = Finished
                          \<or> (holding (pcs s ! i) \<and> last (map fst (io_trace s)) = i)))
           (map fst (io_trace s)))"

text \<open>The same, stated on the goroutines one by one.\<close>

definition one_at_a_time :: "system \<Rightarrow> bool" where
  "one_at_a_time s =
     ((\<forall>i j. i < length (pcs s) \<and> j < length (pcs s)
            \<and> holding (pcs s ! i) \<and> holding (pcs s ! j) \<longrightarrow> i = j)
      \<and> chan s = (if \<exists>i < length (pcs s). holding (pcs s ! i) then 1 else 0)
      \<and> distinct (remdups_adj (map fst (io_trace s)))
      \<and> (\<forall>i \<in> set (map fst (io_trace s)).
            i < length (pcs s)
            \<and> (pcs s ! i = Finished
               \<or> (holding (pcs s ! i) \<and> last (map fst (io_trace s)) = i))))"

section \<open>Properties\<close>

subsection \<open>The frame loop on reads that carry data\<close>

text \<open>
  One turn of the loop on a read without error that brought between 1 and 1024 bytes:
  the bytes are appended, and the loop ends exactly when the last of them is the
  delimiter.
\<close>

lemma read_loop_data_step:
  assumes "bytes \<noteq> []" and "length bytes \<le> 1024"
  shows "read_loop p ((bytes, None) # rest) outData evs =
     (if last bytes = delimiter
      then (Returned (outData @ bytes), rest, evs @ [EvRead p (length bytes)])
      else read_loop p rest (outData @ bytes) (evs @ [EvRead p (length bytes)]))"
proof -
  have n: "nat (int (length bytes) - 1) = length bytes - 1" by simp
  show ?thesis using assms by (auto simp: Let_def nth_append last_conv_nth n)
qed

lemma read_loop_frame_in_chunks:
  assumes "delimiter \<notin> set payload"
    and "concat cs = payload @ [delimiter]"
    and "\<forall>c\<in>set cs. c \<noteq> [] \<and> length c \<le> 1024"
  shows "read_loop p (map (\<lambda>c. (c, None)) cs @ rest) outData evs =
     (Returned (outData @ payload @ [delimiter]), rest,
      evs @ map (\<lambda>c. EvRead p (length c)) cs)"
  using assms
proof (induction cs arbitrary: payload outData evs)
  case Nil
  then show ?case by simp
next
  case (Cons c cs)
  have c: "c \<noteq> []" "length c \<le> 1024" using Cons.prems(3) by auto
  show ?case
  proof (cases "cs = []")
    case True
    then have "c = payload @ [delimiter]" using Cons.prems(2) by simp
    then show ?thesis using True c by (simp add: read_loop_data_step del: read_loop.simps)
  next
    case False
    then obtain d ds where cs: "cs = d # ds" by (cases cs) auto
    have "d \<noteq> []" using Cons.prems(3) cs by auto
    then have ne: "concat cs \<noteq> []" using cs by simp
    have eq: "c @ concat cs = payload @ [delimiter]" using Cons.prems(2) by simp
    from eq ne obtain r where r: "payload = c @ r" "concat cs = r @ [delimiter]"
      by (metis append_butlast_last_id butlast_append butlast_snoc last_appendR last_snoc)
    have "last c \<in> set payload" using r c by simp
    then have nl: "last c \<noteq> delimiter" using Cons.prems(1) by auto
    have "delimiter \<notin> set r" using Cons.prems(1) r by simp
    from Cons.IH [OF this r(2), of "outData @ c" "evs @ [EvRead p (length c)]"] Cons.prems(3)
    show ?thesis using c nl r by (simp add: read_loop_data_step del: read_loop.simps)
  qed
qed






subsection \<open>ExecuteTx once the pipes are obtained\<close>





text \<open>The stub engine serves one whole protocol turn.\<close>

lemma ExecuteTx_stub_world:
  "ExecuteTx (MarshalBinary stub_codecs) [1, 2, 3] stub_world =
     (Returned ([7, 10], [10], None),
      \<lparr>sgxRevmCmd = \<lparr>Stdin = Some PipeEnd, Stdout = Some PipeEnd, Stderr = Some PipeEnd,
                      Process = False\<rparr>,
       stdin_writes = [], stdout_reads = [], stderr_reads = [],
       events = [EvWrite [1, 2, 3, 10], EvRead outPipe 2, EvRead errPipe 1]\<rparr>)"
  by (simp add: ExecuteTx_def StdinPipe_def StdoutPipe_def StderrPipe_def stub_world_def
      stub_codecs_def exec_Command_def pipe_Write_def append_delimiter_def read_frame_def
      pipe_reads_def set_pipe_reads_def delimiter_def)

subsection \<open>The keys of the envelopes\<close>

lemma key_Code: "json_field_key ''Code'' tag_Code = Some ''code''"
  by code_simp

lemma key_Message: "json_field_key ''Message'' tag_Message = Some ''Message''"
  by code_simp

lemma key_jsonrpc: "json_field_key ''Jsonrpc'' tag_jsonrpc = Some ''jsonrpc''"
  by code_simp

lemma key_id: "json_field_key ''Id'' tag_id = Some ''id''"
  by code_simp

lemma key_error: "json_field_key ''Error'' tag_error = Some ''error''"
  by code_simp

lemma key_result: "json_field_key ''Result'' tag_result = Some ''result''"
  by code_simp

lemma encode_error_shape:
  "encode_JsonRpcErrorResponse x =
     JObject [(''jsonrpc'', JString (err_Jsonrpc x)),
              (''error'', JObject [(''code'', JNumber (Code (err_Error x))),
                                   (''Message'', JString (Message (err_Error x)))]),
              (''id'', err_Id x)]"
  by (simp add: encode_JsonRpcErrorResponse_def encode_JsonRpcError_def encode_struct_def
      List.map_filter_simps key_Code key_Message key_jsonrpc key_id key_error)

lemma encode_success_shape:
  "encode_JsonRpcSuccessResponse x =
     JObject [(''jsonrpc'', JString (ok_Jsonrpc x)),
              (''result'', JBytes (ok_Result x)),
              (''id'', ok_Id x)]"
  by (simp add: encode_JsonRpcSuccessResponse_def encode_struct_def
      List.map_filter_simps key_jsonrpc key_id key_result)

lemma error_reply_shape:
  "error_reply jr msg =
     EncodeJson (JObject [(''jsonrpc'', JString (Jsonrpc jr)),
              (''error'', JObject [(''code'', JNumber (- 32600)), (''Message'', JString msg)]),
              (''id'', ReqId jr)])"
  by (simp add: error_reply_def encode_error_shape NewJsonRpcErrorResponse_def)

subsection \<open>The handler around a callback that fails\<close>




subsection \<open>C1: giving the slot back\<close>

text \<open>
  C1, as the code has it. Take a call of ExecuteLocked that gets the slot: the channel
  has room, and the context is not done or the \<open>select\<close> picks the send all the same (a
  context that is done once the slot is taken changes nothing). If the callback returns,
  whatever it did and whether or not the work inside it reported an error value, the
  call gives the slot back exactly once and returns nil: the gate's events grow by one
  \<open>Lock\<close>, the wait metric and one \<open>Unlock\<close>, and the channel is as before. If the
  callback panics, the panic leaves ExecuteLocked before line 47 is reached: there is no
  \<open>Unlock\<close>, and the channel stays full.
\<close>

theorem ExecuteLocked_release:
  assumes "cmdLock g < cmdLock_cap" and "ctx = None \<or> pick_send"
  shows "(cb s = (Returned u, s') \<longrightarrow>
            ExecuteLocked ctx pick_send cb (g, s) =
              (Returned None,
               g\<lparr>gate_events := gate_events g @ [Lock, Metric ''revm_lock_wait'', Unlock]\<rparr>, s'))
       \<and> (cb s = (Panicked pv, s') \<longrightarrow>
            ExecuteLocked ctx pick_send cb (g, s) =
              (Panicked pv,
               g\<lparr>cmdLock := cmdLock g + 1,
                  gate_events := gate_events g @ [Lock, Metric ''revm_lock_wait'']\<rparr>, s'))"
  using assms by (auto simp: ExecuteLocked_def Let_def)

text \<open>
  The witness runs the handler's own callback on the stub engine, under a context that
  is already cancelled when the slot is taken, and a callback that panics.
\<close>

theorem ExecuteLocked_release_witness:
  "ExecuteLocked (Some (Error ''context canceled'')) True
      (callback (MarshalBinary stub_codecs) [1, 2, 3])
      (free_gate, (\<lparr>outCh = [], errCh = []\<rparr>, stub_world)) =
     (Returned None,
      free_gate\<lparr>gate_events := gate_events free_gate @ [Lock, Metric ''revm_lock_wait'', Unlock]\<rparr>,
      (\<lparr>outCh = [[7, 10], [10]], errCh = [None]\<rparr>,
       snd (ExecuteTx (MarshalBinary stub_codecs) [1, 2, 3] stub_world)))
   \<and> ExecuteLocked None False (\<lambda>s. (Panicked (IndexOutOfRange (- 1)), s)) (free_gate, ()) =
     (Panicked (IndexOutOfRange (- 1)),
      free_gate\<lparr>cmdLock := cmdLock free_gate + 1,
                gate_events := gate_events free_gate @ [Lock, Metric ''revm_lock_wait'']\<rparr>, ())"
proof -
  have free: "cmdLock free_gate < cmdLock_cap"
    by (simp add: free_gate_def cmdLock_cap_def)
  have pick: "Some (Error ''context canceled'') = None \<or> True" by simp
  have live: "(None :: go_error option) = None \<or> False" by simp
  have run: "callback (MarshalBinary stub_codecs) [1, 2, 3] (\<lparr>outCh = [], errCh = []\<rparr>, stub_world) =
      (Returned (), \<lparr>outCh = [[7, 10], [10]], errCh = [None]\<rparr>,
       snd (ExecuteTx (MarshalBinary stub_codecs) [1, 2, 3] stub_world))"
    by (simp add: callback_def ExecuteTx_stub_world chan_send_def)
  show ?thesis
    using ExecuteLocked_release [OF free pick,
        of "callback (MarshalBinary stub_codecs) [1, 2, 3]"
           "(\<lparr>outCh = [], errCh = []\<rparr>, stub_world)" "()" _ "IndexOutOfRange 0"]
      ExecuteLocked_release [OF free live,
        of "\<lambda>s. (Panicked (IndexOutOfRange (- 1)), s)" "()" "()" "()" "IndexOutOfRange (- 1)"]
      run
    by simp
qed

text \<open>
  The claim as the specification words it, with a release on the fault path too, fails
  when the read of the primary frame ends in an error: line 89 panics inside the
  callback, and ExecuteLocked leaves with the slot taken and never given back.
\<close>

theorem release_on_fault_counterexample:
  "fst (ExecuteLocked None True (callback (MarshalBinary stub_codecs) [1, 2, 3])
          (free_gate, (\<lparr>outCh = [], errCh = []\<rparr>,
                       stub_world\<lparr>stdout_reads := [([], Some (Error ''EOF''))]\<rparr>)))
     = Panicked (PanicError (Error ''EOF''))
   \<and> cmdLock (fst (snd (ExecuteLocked None True (callback (MarshalBinary stub_codecs) [1, 2, 3])
          (free_gate, (\<lparr>outCh = [], errCh = []\<rparr>,
                       stub_world\<lparr>stdout_reads := [([], Some (Error ''EOF''))]\<rparr>))))) = 1
   \<and> count_list (gate_events (fst (snd (ExecuteLocked None True
          (callback (MarshalBinary stub_codecs) [1, 2, 3])
          (free_gate, (\<lparr>outCh = [], errCh = []\<rparr>,
                       stub_world\<lparr>stdout_reads := [([], Some (Error ''EOF''))]\<rparr>)))))) Unlock = 0"
  by (simp add: ExecuteLocked_def callback_def ExecuteTx_def StdinPipe_def StdoutPipe_def
      StderrPipe_def stub_world_def stub_codecs_def exec_Command_def pipe_Write_def
      append_delimiter_def read_frame_def pipe_reads_def set_pipe_reads_def delimiter_def
      free_gate_def cmdLock_cap_def)

subsection \<open>C2: a deadline that ends the wait for the slot\<close>

text \<open>
  C2. A request with the supported method and a transaction that decodes finds the slot
  taken, and its context ends while it waits. ExecuteLocked records the timeout and
  returns \<open>ctx.Err()\<close> without running the callback, so nothing is written to or read
  from the engine. The handler drops that return value (line 211) and receives from
  \<open>errCh\<close> (line 223), to which only the callback sends: it waits for ever. Only the
  content-type header has been set; no envelope is written and the handler does not end.
\<close>

theorem admission_timeout_blocks_handler:
  assumes "parseJsonRpcRequest env r = Inr jr"
    and "Method jr = ''suave_offchainCall''"
    and "UnmarshalTx env (Params jr) = Inr tx"
    and "cmdLock g = cmdLock_cap"
    and "Context r = Some err"
  shows "handleAPI env pick_send r (g, w) =
     \<lparr>ending = Blocked,
      response = [SetHeader ''Content-Type'' ''application/json''],
      gate_after = g\<lparr>gate_events := gate_events g @ [Metric ''revm_lock_timeout'']\<rparr>,
      world_after = w\<rparr>"
  using assms
  by (simp add: handleAPI_def handleAPI_body_def ExecuteLocked_def chan_recv_def)

theorem admission_timeout_blocks_handler_witness:
  "handleAPI stub_codecs True
      \<lparr>Body = ''suave_offchainCall'', Context = Some (Error ''context deadline exceeded'')\<rparr>
      (held_gate, stub_world) =
     \<lparr>ending = Blocked,
      response = [SetHeader ''Content-Type'' ''application/json''],
      gate_after = held_gate\<lparr>gate_events := gate_events held_gate @ [Metric ''revm_lock_timeout'']\<rparr>,
      world_after = stub_world\<rparr>"
proof -
  let ?r = "\<lparr>Body = ''suave_offchainCall'', Context = Some (Error ''context deadline exceeded'')\<rparr>"
  let ?jr = "\<lparr>Jsonrpc = ''2.0'', Method = ''suave_offchainCall'', Params = ''tx'', ReqId = JNumber 1\<rparr>"
  have h1: "parseJsonRpcRequest stub_codecs ?r = Inr ?jr"
    by (simp add: parseJsonRpcRequest_def stub_codecs_def)
  have h2: "Method ?jr = ''suave_offchainCall''" by simp
  have h3: "UnmarshalTx stub_codecs (Params ?jr) = Inr [1, 2, 3]"
    by (simp add: stub_codecs_def)
  have h4: "cmdLock held_gate = cmdLock_cap"
    by (simp add: held_gate_def cmdLock_cap_def)
  have h5: "Context ?r = Some (Error ''context deadline exceeded'')" by simp
  show ?thesis
    by (rule admission_timeout_blocks_handler [OF h1 h2 h3 h4 h5])
qed

subsection \<open>C3: a frame written and read back\<close>

text \<open>
  C3, as the code has it. A payload without the delimiter byte is written as one frame
  (the payload and one delimiter byte, line 76). A loopback stream hands the written
  bytes back in order, cut into reads of 1 to 1024 bytes each, however the cuts fall.
  The frame loop then returns after the last of these reads, and what it returns is the
  payload followed by the delimiter byte: every byte once, in order, and the delimiter
  is kept, not stripped.
\<close>

theorem frame_round_trip_keeps_delimiter:
  assumes "delimiter \<notin> set payload"
    and "concat cs = append_delimiter payload"
    and "\<forall>c\<in>set cs. c \<noteq> [] \<and> length c \<le> 1024"
  shows "read_loop p (map (\<lambda>c. (c, None)) cs) [] evs =
     (Returned (payload @ [delimiter]), [], evs @ map (\<lambda>c. EvRead p (length c)) cs)"
  using read_loop_frame_in_chunks [of payload cs p "[]" "[]" evs] assms
  by (simp add: append_delimiter_def)

theorem frame_round_trip_keeps_delimiter_witness:
  "delimiter \<notin> set [1, 2, 3]
   \<and> concat [[1, 2], [3, 10]] = append_delimiter [1, 2, 3]
   \<and> read_loop outPipe (map (\<lambda>c. (c, None)) [[1, 2], [3, 10]]) [] [] =
       (Returned ([1, 2, 3] @ [delimiter]), [], [EvRead outPipe 2, EvRead outPipe 2])"
proof -
  have h1: "delimiter \<notin> set [1, 2, 3]" by (simp add: delimiter_def)
  have h2: "concat [[1, 2], [3, 10]] = append_delimiter [1, 2, 3]"
    by (simp add: append_delimiter_def delimiter_def)
  have h3: "\<forall>c\<in>set [[1, 2], [3, 10 :: byte]]. c \<noteq> [] \<and> length c \<le> 1024" by simp
  show ?thesis
    using frame_round_trip_keeps_delimiter [OF h1 h2 h3, of outPipe "[]"] h1 h2 by simp
qed

text \<open>
  The claim as the specification words it, with the delimiter stripped, fails already on
  the empty payload read back in one piece: the loop returns the one delimiter byte.
\<close>

theorem frame_round_trip_stripped_counterexample:
  "fst (read_loop outPipe [(append_delimiter [], None)] [] []) \<noteq> Returned []"
  by (simp add: append_delimiter_def delimiter_def)

subsection \<open>C4: a read of zero bytes without error\<close>

text \<open>
  C4. A read that returns zero bytes and no error makes the loop sleep (line 92) and
  then evaluate \<open>buf[nRead-1]\<close> with \<open>nRead = 0\<close> (line 95): the index is \<open>-1\<close> and
  the loop panics instead of reading again, whatever the stream would have delivered
  next.
\<close>

theorem zero_length_read_panics:
  "read_loop p (([], None) # rest) outData evs =
     (Panicked (IndexOutOfRange (- 1)), rest, evs @ [EvRead p 0, EvSleep])"
  by simp

subsection \<open>C5: errors on the engine's streams\<close>




subsection \<open>C6: the pipes of the started engine\<close>

text \<open>
  C6. NewRevmService attaches buffers to the command's standard output and standard
  error and starts it; it asks for no pipe. On the command it leaves in the service,
  each of the three pipe calls of ExecuteTx is refused: the process has been started,
  and two of the streams are already set. So every call of ExecuteTx on a service that
  started returns the error of \<open>StdinPipe\<close> at line 58, before anything is written or
  read.
\<close>

theorem pipes_refused_after_start:
  "NewRevmService None =
     Inr \<lparr>svc_sgxRevmCmd = \<lparr>Stdin = None, Stdout = Some Buffer, Stderr = Some Buffer, Process = True\<rparr>,
          svc_cmdLock = 0\<rparr>
   \<and> fst (StdinPipe \<lparr>Stdin = None, Stdout = Some Buffer, Stderr = Some Buffer, Process = True\<rparr>)
       = Some (Error ''exec: StdinPipe after process started'')
   \<and> fst (StdoutPipe \<lparr>Stdin = None, Stdout = Some Buffer, Stderr = Some Buffer, Process = True\<rparr>)
       = Some (Error ''exec: Stdout already set'')
   \<and> fst (StderrPipe \<lparr>Stdin = None, Stdout = Some Buffer, Stderr = Some Buffer, Process = True\<rparr>)
       = Some (Error ''exec: Stderr already set'')
   \<and> ExecuteTx marshal tx
        (w\<lparr>sgxRevmCmd := \<lparr>Stdin = None, Stdout = Some Buffer, Stderr = Some Buffer, Process = True\<rparr>\<rparr>)
       = (Returned ([], [], Some (Error ''exec: StdinPipe after process started'')),
          w\<lparr>sgxRevmCmd := \<lparr>Stdin = None, Stdout = Some Buffer, Stderr = Some Buffer, Process = True\<rparr>\<rparr>)"
  by (simp add: NewRevmService_def exec_Command_def Start_def StdinPipe_def StdoutPipe_def
      StderrPipe_def ExecuteTx_def)

subsection \<open>C7: the answer to an unsupported method\<close>

text \<open>
  C7. A request that parses and names any method but \<open>suave_offchainCall\<close> is answered
  with one JSON object and the handler ends. The object echoes \<open>jsonrpc\<close> and \<open>id\<close> and
  holds the error object with the code \<open>-32600\<close> under \<open>code\<close>. The message is written
  under the key \<open>Message\<close>, the Go name of the field: its tag (line 129) has the quote
  marks after the name instead of around it, so it gives no key.
\<close>

theorem invalid_method_reply:
  assumes "parseJsonRpcRequest env r = Inr jr"
    and "Method jr \<noteq> ''suave_offchainCall''"
  shows "handleAPI env pick_send r (g, w) =
     \<lparr>ending = Returned (),
      response =
        [SetHeader ''Content-Type'' ''application/json'',
         EncodeJson (JObject
           [(''jsonrpc'', JString (Jsonrpc jr)),
            (''error'', JObject [(''code'', JNumber (- 32600)),
                                 (''Message'', JString ''invalid method, expected suave_offchainCall'')]),
            (''id'', ReqId jr)])],
      gate_after = g\<lparr>gate_events := gate_events g @ [Metric ''request_duration_api'']\<rparr>,
      world_after = w\<rparr>"
  using assms by (simp add: handleAPI_def handleAPI_body_def error_reply_shape)

theorem invalid_method_reply_witness:
  "handleAPI stub_codecs True \<lparr>Body = ''foo'', Context = None\<rparr> (free_gate, stub_world) =
     \<lparr>ending = Returned (),
      response =
        [SetHeader ''Content-Type'' ''application/json'',
         EncodeJson (JObject
           [(''jsonrpc'', JString ''2.0''),
            (''error'', JObject [(''code'', JNumber (- 32600)),
                                 (''Message'', JString ''invalid method, expected suave_offchainCall'')]),
            (''id'', JNumber 1)])],
      gate_after = free_gate\<lparr>gate_events := gate_events free_gate @ [Metric ''request_duration_api'']\<rparr>,
      world_after = stub_world\<rparr>"
proof -
  let ?r = "\<lparr>Body = ''foo'', Context = None\<rparr>"
  let ?jr = "\<lparr>Jsonrpc = ''2.0'', Method = ''foo'', Params = ''tx'', ReqId = JNumber 1\<rparr>"
  have h1: "parseJsonRpcRequest stub_codecs ?r = Inr ?jr"
    by (simp add: parseJsonRpcRequest_def stub_codecs_def)
  have h2: "Method ?jr \<noteq> ''suave_offchainCall''" by simp
  show ?thesis
    using invalid_method_reply [OF h1 h2, of True free_gate stub_world] by simp
qed

subsection \<open>C8: the answer to a successful execution\<close>

text \<open>
  C8. A request with the supported method and a transaction that decodes gets the slot,
  and ExecuteTx returns the two frames without error. The handler writes the success
  envelope with the primary output as \<open>result\<close>; the diagnostic output is in no write.
  It then receives from \<open>errCh\<close> a second time (line 231), where the diagnostic output
  waits in \<open>outCh\<close>: nothing more is ever sent to \<open>errCh\<close>, so the handler waits for
  ever. It logs nothing (the world is the one ExecuteTx left) and does not end; the
  request-duration metric is not recorded either. The slot has been given back.
\<close>

theorem success_reply_then_blocked:
  assumes "parseJsonRpcRequest env r = Inr jr"
    and "Method jr = ''suave_offchainCall''"
    and "UnmarshalTx env (Params jr) = Inr tx"
    and "cmdLock g < cmdLock_cap"
    and "Context r = None \<or> pick_send"
    and "ExecuteTx (MarshalBinary env) tx w = (Returned (stdout, stderr, None), w')"
  shows "handleAPI env pick_send r (g, w) =
     \<lparr>ending = Blocked,
      response =
        [SetHeader ''Content-Type'' ''application/json'',
         EncodeJson (JObject
           [(''jsonrpc'', JString (Jsonrpc jr)),
            (''result'', JBytes stdout),
            (''id'', ReqId jr)])],
      gate_after = g\<lparr>gate_events := gate_events g @ [Lock, Metric ''revm_lock_wait'', Unlock]\<rparr>,
      world_after = w'\<rparr>"
  using assms
  by (auto simp: handleAPI_def handleAPI_body_def ExecuteLocked_def callback_def chan_recv_def
      chan_send_def encode_success_shape NewJsonRpcSuccessResponse_def Let_def)

theorem success_reply_then_blocked_witness:
  "handleAPI stub_codecs True \<lparr>Body = ''suave_offchainCall'', Context = None\<rparr>
      (free_gate, stub_world) =
     \<lparr>ending = Blocked,
      response =
        [SetHeader ''Content-Type'' ''application/json'',
         EncodeJson (JObject
           [(''jsonrpc'', JString ''2.0''), (''result'', JBytes [7, 10]), (''id'', JNumber 1)])],
      gate_after = free_gate\<lparr>gate_events := gate_events free_gate @
                      [Lock, Metric ''revm_lock_wait'', Unlock]\<rparr>,
      world_after =
        \<lparr>sgxRevmCmd = \<lparr>Stdin = Some PipeEnd, Stdout = Some PipeEnd, Stderr = Some PipeEnd,
                        Process = False\<rparr>,
         stdin_writes = [], stdout_reads = [], stderr_reads = [],
         events = [EvWrite [1, 2, 3, 10], EvRead outPipe 2, EvRead errPipe 1]\<rparr>\<rparr>"
proof -
  let ?r = "\<lparr>Body = ''suave_offchainCall'', Context = None\<rparr>"
  let ?jr = "\<lparr>Jsonrpc = ''2.0'', Method = ''suave_offchainCall'', Params = ''tx'', ReqId = JNumber 1\<rparr>"
  have h1: "parseJsonRpcRequest stub_codecs ?r = Inr ?jr"
    by (simp add: parseJsonRpcRequest_def stub_codecs_def)
  have h2: "Method ?jr = ''suave_offchainCall''" by simp
  have h3: "UnmarshalTx stub_codecs (Params ?jr) = Inr [1, 2, 3]"
    by (simp add: stub_codecs_def)
  have h4: "cmdLock free_gate < cmdLock_cap"
    by (simp add: free_gate_def cmdLock_cap_def)
  have h5: "Context ?r = None \<or> True" by simp
  show ?thesis
    using success_reply_then_blocked [OF h1 h2 h3 h4 h5 ExecuteTx_stub_world] by simp
qed

subsection \<open>C9: one ticket, one protocol turn at a time\<close>

lemma remdups_adj_snoc:
  "remdups_adj (xs @ [x]) =
     (if xs \<noteq> [] \<and> last xs = x then remdups_adj xs else remdups_adj xs @ [x])"
proof (cases xs rule: rev_cases)
  case Nil
  then show ?thesis by simp
next
  case (snoc ys y)
  then show ?thesis by (simp add: remdups_adj_append_two)
qed

lemma distinct_blocks_snoc:
  assumes "distinct (remdups_adj ids)" and "i \<in> set ids \<longrightarrow> last ids = i"
  shows "distinct (remdups_adj (ids @ [i]))"
proof (cases "ids \<noteq> [] \<and> last ids = i")
  case True
  then show ?thesis using assms(1) by (simp add: remdups_adj_snoc)
next
  case False
  then have "i \<notin> set ids" using assms(2) by (cases "ids = []") auto
  then show ?thesis using assms(1) False by (auto simp: remdups_adj_snoc)
qed

lemma move_simps:
  "chan (move i p s) = chan s"
  "io_trace (move i p s) = io_trace s"
  "length (pcs (move i p s)) = length (pcs s)"
  "j < length (pcs s) \<Longrightarrow> pcs (move i p s) ! j = (if j = i then p else pcs s ! j)"
  by (simp_all add: move_def nth_list_update)

lemma touch_simps:
  "chan (touch i p s) = chan s"
  "pcs (touch i p s) = pcs s"
  "map fst (io_trace (touch i p s)) = map fst (io_trace s) @ [i]"
  by (simp_all add: touch_def)

lemma one_at_a_time_start: "one_at_a_time (start n)"
  by (auto simp: one_at_a_time_def start_def)

lemma one_at_a_time_intro:
  assumes only: "\<And>j. j < length (pcs s) \<Longrightarrow> holding (pcs s ! j) \<Longrightarrow> j = h"
    and ch: "chan s = (if h < length (pcs s) \<and> holding (pcs s ! h) then 1 else 0)"
    and blocks: "distinct (remdups_adj (map fst (io_trace s)))"
    and seen: "\<And>j. j \<in> set (map fst (io_trace s)) \<Longrightarrow>
        j < length (pcs s)
        \<and> (pcs s ! j = Finished \<or> (holding (pcs s ! j) \<and> last (map fst (io_trace s)) = j))"
  shows "one_at_a_time s"
proof -
  have a: "\<forall>i j. i < length (pcs s) \<and> j < length (pcs s)
            \<and> holding (pcs s ! i) \<and> holding (pcs s ! j) \<longrightarrow> i = j"
    using only by blast
  have "(\<exists>i < length (pcs s). holding (pcs s ! i)) = (h < length (pcs s) \<and> holding (pcs s ! h))"
    using only by blast
  then have b: "chan s = (if \<exists>i < length (pcs s). holding (pcs s ! i) then 1 else 0)"
    using ch by simp
  have d: "\<forall>i \<in> set (map fst (io_trace s)).
            i < length (pcs s)
            \<and> (pcs s ! i = Finished
               \<or> (holding (pcs s ! i) \<and> last (map fst (io_trace s)) = i))"
    using seen by blast
  show ?thesis
    unfolding one_at_a_time_def using a b blocks d by blast
qed

lemma one_at_a_time_same:
  assumes inv: "one_at_a_time s"
    and len: "length (pcs s') = length (pcs s)"
    and chan: "chan s' = chan s"
    and trace: "io_trace s' = io_trace s"
    and hold: "\<And>k. k < length (pcs s) \<Longrightarrow> holding (pcs s' ! k) = holding (pcs s ! k)"
    and fin: "\<And>k. k < length (pcs s) \<Longrightarrow> (pcs s' ! k = Finished) = (pcs s ! k = Finished)"
  shows "one_at_a_time s'"
  using inv unfolding one_at_a_time_def len chan trace
  by (simp add: hold fin cong: conj_cong)

lemma one_at_a_time_uniq:
  "one_at_a_time s \<Longrightarrow> i < length (pcs s) \<Longrightarrow> j < length (pcs s)
   \<Longrightarrow> holding (pcs s ! i) \<Longrightarrow> holding (pcs s ! j) \<Longrightarrow> i = j"
  unfolding one_at_a_time_def by blast

lemma one_at_a_time_chan:
  "one_at_a_time s \<Longrightarrow>
   chan s = (if \<exists>i < length (pcs s). holding (pcs s ! i) then 1 else 0)"
  unfolding one_at_a_time_def by blast

lemma one_at_a_time_blocks:
  "one_at_a_time s \<Longrightarrow> distinct (remdups_adj (map fst (io_trace s)))"
  unfolding one_at_a_time_def by blast

lemma one_at_a_time_seen:
  "one_at_a_time s \<Longrightarrow> j \<in> set (map fst (io_trace s)) \<Longrightarrow>
   j < length (pcs s)
   \<and> (pcs s ! j = Finished \<or> (holding (pcs s ! j) \<and> last (map fst (io_trace s)) = j))"
  unfolding one_at_a_time_def by blast

text \<open>A call on a pipe by the goroutine that holds the ticket.\<close>

lemma one_at_a_time_io:
  assumes inv: "one_at_a_time s"
    and i: "i < length (pcs s)" "holding (pcs s ! i)"
    and p: "holding p"
  shows "one_at_a_time (move i p (touch i q s))"
proof (rule one_at_a_time_intro [where h = i])
  let ?t = "touch i q s"
  let ?ids = "map fst (io_trace s)"
  have len: "length (pcs (move i p ?t)) = length (pcs s)"
    by (simp add: move_simps touch_simps)
  have at: "pcs (move i p ?t) ! j = (if j = i then p else pcs s ! j)" if "j < length (pcs s)" for j
    using that by (simp add: move_simps touch_simps)
  have ids: "map fst (io_trace (move i p ?t)) = ?ids @ [i]"
    by (simp add: move_simps touch_simps)
  show "j = i" if "j < length (pcs (move i p ?t))" "holding (pcs (move i p ?t) ! j)" for j
  proof (rule ccontr)
    assume "j \<noteq> i"
    moreover have j: "j < length (pcs s)" using that(1) len by simp
    ultimately have "holding (pcs s ! j)" using that(2) at [OF j] by simp
    from one_at_a_time_uniq [OF inv j i(1) this i(2)] \<open>j \<noteq> i\<close> show False by simp
  qed
  have "chan s = 1" using one_at_a_time_chan [OF inv] i by auto
  then show "chan (move i p ?t) =
      (if i < length (pcs (move i p ?t)) \<and> holding (pcs (move i p ?t) ! i) then 1 else 0)"
    using i(1) p by (simp add: len at move_simps touch_simps)
  have last_i: "i \<in> set ?ids \<longrightarrow> last ?ids = i"
  proof
    assume "i \<in> set ?ids"
    from one_at_a_time_seen [OF inv this] i(2) show "last ?ids = i" by auto
  qed
  show "distinct (remdups_adj (map fst (io_trace (move i p ?t))))"
    unfolding ids by (rule distinct_blocks_snoc [OF one_at_a_time_blocks [OF inv] last_i])
  show "j < length (pcs (move i p ?t))
        \<and> (pcs (move i p ?t) ! j = Finished
           \<or> (holding (pcs (move i p ?t) ! j) \<and> last (map fst (io_trace (move i p ?t))) = j))"
    if "j \<in> set (map fst (io_trace (move i p ?t)))" for j
  proof (cases "j = i")
    case True
    then show ?thesis using i(1) p by (simp add: len at ids)
  next
    case False
    then have mem: "j \<in> set ?ids" using that ids by simp
    from one_at_a_time_seen [OF inv mem]
    have j: "j < length (pcs s)"
      and alt: "pcs s ! j = Finished \<or> holding (pcs s ! j)" by auto
    have "\<not> holding (pcs s ! j)"
      using one_at_a_time_uniq [OF inv j i(1) _ i(2)] False by blast
    with alt have "pcs s ! j = Finished" by simp
    then show ?thesis using j False by (simp add: len at)
  qed
qed

text \<open>Taking the ticket, and giving it back.\<close>

lemma one_at_a_time_acquire:
  assumes inv: "one_at_a_time s"
    and i: "i < length (pcs s)" "pcs s ! i = AtSelect"
    and free: "chan s < cmdLock_cap"
  shows "one_at_a_time (move i Entered (s\<lparr>chan := chan s + 1\<rparr>))"
proof (rule one_at_a_time_intro [where h = i])
  let ?s' = "move i Entered (s\<lparr>chan := chan s + 1\<rparr>)"
  have len: "length (pcs ?s') = length (pcs s)" by (simp add: move_def)
  have at: "pcs ?s' ! j = (if j = i then Entered else pcs s ! j)" if "j < length (pcs s)" for j
    using that by (simp add: move_def nth_list_update)
  have ids: "io_trace ?s' = io_trace s" by (simp add: move_def)
  have c0: "chan s = 0" using free by (simp add: cmdLock_cap_def)
  have none: "\<not> holding (pcs s ! j)" if "j < length (pcs s)" for j
    using one_at_a_time_chan [OF inv] c0 that by (auto split: if_splits)
  show "j = i" if "j < length (pcs ?s')" "holding (pcs ?s' ! j)" for j
  proof (rule ccontr)
    assume ne: "j \<noteq> i"
    have j: "j < length (pcs s)" using that(1) unfolding len .
    have "pcs ?s' ! j = pcs s ! j" using at [OF j] ne by simp
    with that(2) have "holding (pcs s ! j)" by simp
    with none [OF j] show False by simp
  qed
  have "chan ?s' = 1" using c0 by (simp add: move_def)
  moreover have "holding (pcs ?s' ! i)" using at [OF i(1)] by simp
  moreover have "i < length (pcs ?s')" using i(1) unfolding len .
  ultimately show "chan ?s' = (if i < length (pcs ?s') \<and> holding (pcs ?s' ! i) then 1 else 0)"
    by simp
  show "distinct (remdups_adj (map fst (io_trace ?s')))"
    unfolding ids by (rule one_at_a_time_blocks [OF inv])
  show "j < length (pcs ?s')
        \<and> (pcs ?s' ! j = Finished
           \<or> (holding (pcs ?s' ! j) \<and> last (map fst (io_trace ?s')) = j))"
    if "j \<in> set (map fst (io_trace ?s'))" for j
  proof -
    have mem: "j \<in> set (map fst (io_trace s))" using that unfolding ids .
    from one_at_a_time_seen [OF inv mem]
    have j: "j < length (pcs s)" and alt: "pcs s ! j = Finished \<or> holding (pcs s ! j)" by auto
    from alt none [OF j] have fin: "pcs s ! j = Finished" by simp
    with i(2) have ne: "j \<noteq> i" by auto
    have "pcs ?s' ! j = Finished" using at [OF j] ne fin by simp
    moreover have "j < length (pcs ?s')" using j unfolding len .
    ultimately show ?thesis by simp
  qed
qed

lemma one_at_a_time_release:
  assumes inv: "one_at_a_time s"
    and i: "i < length (pcs s)" "pcs s ! i = AtUnlock"
  shows "one_at_a_time (move i Finished (s\<lparr>chan := chan s - 1\<rparr>))"
proof (rule one_at_a_time_intro [where h = i])
  let ?s' = "move i Finished (s\<lparr>chan := chan s - 1\<rparr>)"
  have len: "length (pcs ?s') = length (pcs s)" by (simp add: move_def)
  have at: "pcs ?s' ! j = (if j = i then Finished else pcs s ! j)" if "j < length (pcs s)" for j
    using that by (simp add: move_def nth_list_update)
  have ids: "io_trace ?s' = io_trace s" by (simp add: move_def)
  have hi: "holding (pcs s ! i)" using i(2) by simp
  have only: "j = i" if "j < length (pcs s)" "holding (pcs s ! j)" for j
    using one_at_a_time_uniq [OF inv that(1) i(1) that(2) hi] .
  have c1: "chan s = 1" using one_at_a_time_chan [OF inv] i(1) hi by auto
  show "j = i" if "j < length (pcs ?s')" "holding (pcs ?s' ! j)" for j
  proof (rule ccontr)
    assume ne: "j \<noteq> i"
    have j: "j < length (pcs s)" using that(1) unfolding len .
    have "pcs ?s' ! j = pcs s ! j" using at [OF j] ne by simp
    with that(2) have "holding (pcs s ! j)" by simp
    with only [OF j] ne show False by simp
  qed
  have "chan ?s' = 0" using c1 by (simp add: move_def)
  moreover have "\<not> holding (pcs ?s' ! i)" using at [OF i(1)] by simp
  ultimately show "chan ?s' = (if i < length (pcs ?s') \<and> holding (pcs ?s' ! i) then 1 else 0)"
    by simp
  show "distinct (remdups_adj (map fst (io_trace ?s')))"
    unfolding ids by (rule one_at_a_time_blocks [OF inv])
  show "j < length (pcs ?s')
        \<and> (pcs ?s' ! j = Finished
           \<or> (holding (pcs ?s' ! j) \<and> last (map fst (io_trace ?s')) = j))"
    if "j \<in> set (map fst (io_trace ?s'))" for j
  proof -
    have mem: "j \<in> set (map fst (io_trace s))" using that unfolding ids .
    from one_at_a_time_seen [OF inv mem]
    have j: "j < length (pcs s)" and alt: "pcs s ! j = Finished \<or> holding (pcs s ! j)" by auto
    from alt only [OF j] have "pcs s ! j = Finished \<or> j = i" by blast
    then have "pcs ?s' ! j = Finished" using at [OF j] by auto
    moreover have "j < length (pcs ?s')" using j unfolding len .
    ultimately show ?thesis by simp
  qed
qed

text \<open>Every step of a schedule keeps the property, and so does every schedule.\<close>

lemma one_at_a_time_fire:
  assumes inv: "one_at_a_time s" and f: "fire a s = Some s'"
  shows "one_at_a_time s'"
proof (cases a)
  case (Acquire i)
  with f have "i < length (pcs s)" "pcs s ! i = AtSelect" "chan s < cmdLock_cap"
    and s': "s' = move i Entered (s\<lparr>chan := chan s + 1\<rparr>)"
    by (auto simp: stands_def split: if_splits)
  then show ?thesis using one_at_a_time_acquire [OF inv] by simp
next
  case (Expire i)
  with f have i: "i < length (pcs s)" "pcs s ! i = AtSelect" and s': "s' = move i GaveUp s"
    by (auto simp: stands_def split: if_splits)
  show ?thesis
  proof (rule one_at_a_time_same [OF inv])
    show "holding (pcs s' ! k) = holding (pcs s ! k)" if "k < length (pcs s)" for k
      using that i by (simp add: s' move_simps)
    show "(pcs s' ! k = Finished) = (pcs s ! k = Finished)" if "k < length (pcs s)" for k
      using that i by (auto simp: s' move_simps)
  qed (simp_all add: s' move_simps)
next
  case (Refuse i)
  with f have i: "i < length (pcs s)" "pcs s ! i = Entered" and s': "s' = move i AtUnlock s"
    by (auto simp: stands_def split: if_splits)
  show ?thesis
  proof (rule one_at_a_time_same [OF inv])
    show "holding (pcs s' ! k) = holding (pcs s ! k)" if "k < length (pcs s)" for k
      using that i by (simp add: s' move_simps)
    show "(pcs s' ! k = Finished) = (pcs s ! k = Finished)" if "k < length (pcs s)" for k
      using that i by (auto simp: s' move_simps)
  qed (simp_all add: s' move_simps)
next
  case (Write i ok)
  with f have i: "i < length (pcs s)" "pcs s ! i = Entered"
    and s': "s' = move i (if ok then InReadOut else AtUnlock) (touch i inPipe s)"
    by (auto simp: stands_def split: if_splits)
  have "holding (pcs s ! i)" "holding (if ok then InReadOut else AtUnlock)"
    using i(2) by simp_all
  from one_at_a_time_io [OF inv i(1) this] show ?thesis by (simp add: s')
next
  case (Read i r)
  with f consider
    (out) "i < length (pcs s)" "pcs s ! i = InReadOut"
      "s' = move i (case r of More \<Rightarrow> InReadOut | Last \<Rightarrow> InReadErr | Broken \<Rightarrow> Dead)
              (touch i outPipe s)"
    | (err) "i < length (pcs s)" "pcs s ! i = InReadErr"
      "s' = move i (case r of More \<Rightarrow> InReadErr | Last \<Rightarrow> AtUnlock | Broken \<Rightarrow> Dead)
              (touch i errPipe s)"
    by (auto simp: stands_def split: if_splits)
  then show ?thesis
  proof cases
    case out
    have "holding (pcs s ! i)"
      "holding (case r of More \<Rightarrow> InReadOut | Last \<Rightarrow> InReadErr | Broken \<Rightarrow> Dead)"
      using out(2) by (simp_all split: read_end.splits)
    from one_at_a_time_io [OF inv out(1) this] show ?thesis by (simp add: out(3))
  next
    case err
    have "holding (pcs s ! i)"
      "holding (case r of More \<Rightarrow> InReadErr | Last \<Rightarrow> AtUnlock | Broken \<Rightarrow> Dead)"
      using err(2) by (simp_all split: read_end.splits)
    from one_at_a_time_io [OF inv err(1) this] show ?thesis by (simp add: err(3))
  qed
next
  case (Release i)
  with f have "i < length (pcs s)" "pcs s ! i = AtUnlock"
    and s': "s' = move i Finished (s\<lparr>chan := chan s - 1\<rparr>)"
    by (auto simp: stands_def split: if_splits)
  then show ?thesis using one_at_a_time_release [OF inv] by simp
qed

lemma one_at_a_time_run:
  "one_at_a_time s \<Longrightarrow> run as s = Some s' \<Longrightarrow> one_at_a_time s'"
proof (induction as arbitrary: s)
  case Nil
  then show ?case by simp
next
  case (Cons a as)
  then obtain s1 where s1: "fire a s = Some s1" and rest: "run as s1 = Some s'"
    by (auto split: option.splits)
  from one_at_a_time_fire [OF Cons.prems(1) s1] rest show ?case
    by (rule Cons.IH)
qed

lemma holders_count:
  assumes "one_at_a_time s"
  shows "length (holders s) = (if \<exists>i < length (pcs s). holding (pcs s ! i) then 1 else 0)"
proof (cases "\<exists>i < length (pcs s). holding (pcs s ! i)")
  case False
  then have "holders s = []" by (auto simp: holders_def filter_empty_conv)
  with False show ?thesis by simp
next
  case True
  then obtain h where h: "h < length (pcs s)" "holding (pcs s ! h)" by blast
  have "set (holders s) = {i. i < length (pcs s) \<and> holding (pcs s ! i)}"
    by (auto simp: holders_def)
  also have "\<dots> = {h}"
  proof (intro set_eqI iffI)
    fix i assume "i \<in> {i. i < length (pcs s) \<and> holding (pcs s ! i)}"
    then have "i < length (pcs s)" "holding (pcs s ! i)" by simp_all
    from one_at_a_time_uniq [OF assms this(1) h(1) this(2) h(2)] show "i \<in> {h}" by simp
  next
    fix i assume "i \<in> {h}"
    then show "i \<in> {i. i < length (pcs s) \<and> holding (pcs s ! i)}" using h by simp
  qed
  finally have "set (holders s) = {h}" .
  moreover have "distinct (holders s)" by (simp add: holders_def)
  then have "card (set (holders s)) = length (holders s)" by (rule distinct_card)
  ultimately have "length (holders s) = 1" by simp
  with True show ?thesis by simp
qed

lemma one_at_a_time_serialized:
  assumes "one_at_a_time s"
  shows "serialized s"
proof -
  have n: "length (holders s) \<le> 1" using holders_count [OF assms] by simp
  have c: "chan s = length (holders s)"
    using holders_count [OF assms] one_at_a_time_chan [OF assms] by simp
  have s: "list_all (\<lambda>i. i < length (pcs s)
                       \<and> (pcs s ! i = Finished
                          \<or> (holding (pcs s ! i) \<and> last (map fst (io_trace s)) = i)))
           (map fst (io_trace s))"
    unfolding list_all_iff using one_at_a_time_seen [OF assms] by blast
  show ?thesis
    unfolding serialized_def by (intro conjI n c one_at_a_time_blocks [OF assms] s)
qed

text \<open>
  C9. Start any number of goroutines at the \<open>select\<close> of ExecuteLocked and let them run
  under any schedule. In every state that the schedule reaches, at most one goroutine
  holds the ticket, and the channel holds exactly the tickets held. In the order of the
  calls made on the engine's pipes, the calls of one goroutine stand together: no call
  of another goroutine falls between them. A goroutine whose calls are not the latest
  has returned from ExecuteLocked, so its turn on the pipes was over, ticket given back,
  before the next one's began.
\<close>

theorem schedules_serialized:
  assumes "run as (start n) = Some s"
  shows "serialized s"
  using one_at_a_time_serialized [OF one_at_a_time_run [OF one_at_a_time_start assms]] .

text \<open>
  The witness has three goroutines. The first takes the ticket, the second gives up
  waiting, the first writes, reads its two frames and gives the ticket back, and the
  third takes it and writes. While the first holds the ticket, the second cannot take it.
\<close>

theorem schedules_serialized_witness:
  "run [Acquire 0, Expire 1, Write 0 True, Read 0 More, Read 0 Last, Read 0 Last, Release 0,
        Acquire 2, Write 2 True] (start 3) =
     Some \<lparr>chan = 1, pcs = [Finished, GaveUp, InReadOut],
           io_trace = [(0, inPipe), (0, outPipe), (0, outPipe), (0, errPipe), (2, inPipe)]\<rparr>
   \<and> serialized \<lparr>chan = 1, pcs = [Finished, GaveUp, InReadOut],
           io_trace = [(0, inPipe), (0, outPipe), (0, outPipe), (0, errPipe), (2, inPipe)]\<rparr>
   \<and> run [Acquire 0, Acquire 1] (start 3) = None"
proof -
  have r: "run [Acquire 0, Expire 1, Write 0 True, Read 0 More, Read 0 Last, Read 0 Last,
        Release 0, Acquire 2, Write 2 True] (start 3) =
     Some \<lparr>chan = 1, pcs = [Finished, GaveUp, InReadOut],
           io_trace = [(0, inPipe), (0, outPipe), (0, outPipe), (0, errPipe), (2, inPipe)]\<rparr>"
    by (simp add: start_def stands_def move_def touch_def cmdLock_cap_def numeral_3_eq_3)
  have b: "run [Acquire 0, Acquire 1] (start 3) = None"
    by (simp add: start_def stands_def move_def cmdLock_cap_def numeral_3_eq_3)
  from schedules_serialized [OF r] r b show ?thesis by simp
qed

subsection \<open>C10: the version and the id of the request\<close>

lemma with_jsonrpc_error_reply:
  "with_jsonrpc v (error_reply jr msg) = error_reply (jr\<lparr>Jsonrpc := v\<rparr>) msg"
  by (simp add: error_reply_shape)

lemma with_jsonrpc_success:
  "with_jsonrpc v (EncodeJson (encode_JsonRpcSuccessResponse (NewJsonRpcSuccessResponse jr out))) =
     EncodeJson (encode_JsonRpcSuccessResponse (NewJsonRpcSuccessResponse (jr\<lparr>Jsonrpc := v\<rparr>) out))"
  by (simp add: encode_success_shape NewJsonRpcSuccessResponse_def)

lemma handleAPI_body_version_blind:
  assumes "parseJsonRpcRequest env r = Inr jr"
  shows "handleAPI_body (env\<lparr>Decode := \<lambda>b. Inr (jr\<lparr>Jsonrpc := v\<rparr>)\<rparr>) pick_send r (g, w) =
     (handleAPI_body env pick_send r (g, w))
       \<lparr>response := map (with_jsonrpc v) (response (handleAPI_body env pick_send r (g, w)))\<rparr>"
  using assms
  by (simp add: handleAPI_body_def parseJsonRpcRequest_def with_jsonrpc_error_reply
      with_jsonrpc_success Let_def
      split: sum.splits prod.splits outcome.splits option.splits)

lemma handleAPI_body_echo:
  assumes "parseJsonRpcRequest env r = Inr jr"
  shows "list_all (\<lambda>wr. is_envelope wr \<longrightarrow>
            written_member ''jsonrpc'' wr = Some (JString (Jsonrpc jr))
            \<and> written_member ''id'' wr = Some (ReqId jr))
          (response (handleAPI_body env pick_send r (g, w)))"
  using assms
  by (simp add: handleAPI_body_def error_reply_shape encode_success_shape
      NewJsonRpcSuccessResponse_def is_envelope_def written_member_def json_member_def Let_def
      split: sum.splits prod.splits outcome.splits option.splits)

text \<open>
  C10. For a request that parses, every JSON object the handler writes, on the success
  path and on each error path, holds the request's \<open>jsonrpc\<close> under \<open>jsonrpc\<close> and the
  request's \<open>id\<close> under \<open>id\<close>. The version is never checked: had the decoder given any
  other value \<open>v\<close> for the field (the empty string, which is also what a missing field
  decodes to, among them), the handler would have ended the same way, with the same
  gate and the same world, and written the same things with \<open>v\<close> in the place of the
  version.
\<close>

theorem envelopes_echo_version_and_id:
  assumes "parseJsonRpcRequest env r = Inr jr"
  shows "list_all (\<lambda>wr. is_envelope wr \<longrightarrow>
            written_member ''jsonrpc'' wr = Some (JString (Jsonrpc jr))
            \<and> written_member ''id'' wr = Some (ReqId jr))
          (response (handleAPI env pick_send r (g, w)))
       \<and> handleAPI (env\<lparr>Decode := \<lambda>b. Inr (jr\<lparr>Jsonrpc := v\<rparr>)\<rparr>) pick_send r (g, w) =
           (handleAPI env pick_send r (g, w))
             \<lparr>response := map (with_jsonrpc v) (response (handleAPI env pick_send r (g, w)))\<rparr>"
  using handleAPI_body_echo [OF assms, of pick_send g w]
    handleAPI_body_version_blind [OF assms, of v pick_send g w]
  by (simp add: handleAPI_def Let_def)

text \<open>
  The witness is the request with the method \<open>foo\<close>, and the same request with an empty
  version: the one envelope written echoes \<open>2.0\<close> and the id \<open>1\<close>, and the run with the
  empty version differs in that member alone.
\<close>

theorem envelopes_echo_version_and_id_witness:
  "is_envelope (last (response (handleAPI stub_codecs True \<lparr>Body = ''foo'', Context = None\<rparr>
          (free_gate, stub_world))))
   \<and> written_member ''jsonrpc'' (last (response (handleAPI stub_codecs True
          \<lparr>Body = ''foo'', Context = None\<rparr> (free_gate, stub_world)))) = Some (JString ''2.0'')
   \<and> written_member ''id'' (last (response (handleAPI stub_codecs True
          \<lparr>Body = ''foo'', Context = None\<rparr> (free_gate, stub_world)))) = Some (JNumber 1)
   \<and> written_member ''jsonrpc'' (last (response (handleAPI
          (stub_codecs\<lparr>Decode := \<lambda>b. Inr (\<lparr>Jsonrpc = ''2.0'', Method = ''foo'', Params = ''tx'',
                                            ReqId = JNumber 1\<rparr>\<lparr>Jsonrpc := ''''\<rparr>)\<rparr>)
          True \<lparr>Body = ''foo'', Context = None\<rparr> (free_gate, stub_world)))) = Some (JString '''')"
proof -
  let ?r = "\<lparr>Body = ''foo'', Context = None\<rparr>"
  let ?jr = "\<lparr>Jsonrpc = ''2.0'', Method = ''foo'', Params = ''tx'', ReqId = JNumber 1\<rparr>"
  let ?H = "handleAPI stub_codecs True ?r (free_gate, stub_world)"
  have h: "parseJsonRpcRequest stub_codecs ?r = Inr ?jr"
    by (simp add: parseJsonRpcRequest_def stub_codecs_def)
  have shape: "response ?H =
      [SetHeader ''Content-Type'' ''application/json'',
       error_reply ?jr ''invalid method, expected suave_offchainCall'']"
    using h by (simp add: handleAPI_def handleAPI_body_def)
  have env: "is_envelope (error_reply ?jr ''invalid method, expected suave_offchainCall'')"
    by (simp add: error_reply_def is_envelope_def)
  from envelopes_echo_version_and_id [OF h, of True free_gate stub_world "''''"]
  show ?thesis
    using shape env
    by (simp add: error_reply_shape written_member_def json_member_def)
qed


end
